theory Spec2Isabelle
  imports Main "HOL-Library.Word" "HOL-Library.AList"
begin

unbundle bit_operations_syntax

section \<open>Frame codec (src/src/protocol.js)\<close>

text \<open>
  A Node \<^verbatim>\<open>Buffer\<close> is a sequence of unsigned 8-bit values; storing a number into one
  keeps its low eight bits. JavaScript numbers that only ever hold small integers
  (sums, lengths, channel numbers) are \<open>nat\<close> or \<open>int\<close>; the operands of the 32-bit
  operators \<^verbatim>\<open><<\<close>, \<^verbatim>\<open>|\<close>, \<^verbatim>\<open>&\<close> and \<^verbatim>\<open>>>>\<close> are \<open>32 word\<close>.
\<close>

type_synonym byte = "8 word"

definition HEADER :: byte where
  "HEADER = 0xAA"

definition CMD_EASY_CHECK :: byte where
  "CMD_EASY_CHECK = 0x4A"

definition CMD_EASY_INFO :: byte where
  "CMD_EASY_INFO = 0x4E"

definition CMD_EASY_SEND :: byte where
  "CMD_EASY_SEND = 0x4C"

definition RSP_EASY_CONFIRM :: byte where
  "RSP_EASY_CONFIRM = 0x4B"

definition RSP_EASY_ACK :: byte where
  "RSP_EASY_ACK = 0x4D"

text \<open>The errors a request can be rejected with, and the \<^verbatim>\<open>RangeError\<close> of the codec.\<close>

datatype js_error =
    RangeError
  | InvalidQueueItem
  | ResponseTimeout
  | WriteError
  | StickStopped

text \<open>\<^verbatim>\<open>checksum(bytes)\<close>: the loop adds every byte to \<^verbatim>\<open>sum\<close>.\<close>

definition checksum :: "byte list \<Rightarrow> nat" where
  "checksum bytes = (256 - (sum_list (map unat bytes) mod 256)) mod 256"

text \<open>\<^verbatim>\<open>channelToBytes(channel)\<close>: the pair \<^verbatim>\<open>[high, low]\<close>, or the thrown \<^verbatim>\<open>RangeError\<close>.\<close>

definition channelToBytes :: "int \<Rightarrow> js_error + (int \<times> int)" where
  "channelToBytes channel =
     (if channel < 1 \<or> channel > 15 then Inl RangeError
      else if channel \<le> 8 then Inr (0x00, push_bit (nat (channel - 1)) 1)
      else Inr (push_bit (nat (channel - 9)) 1, 0x00))"

text \<open>
  The \<^verbatim>\<open>while (n !== 1 && channel <= 15)\<close> loop of \<^verbatim>\<open>bytesToChannel\<close>, on the
  pair \<^verbatim>\<open>(n, channel)\<close>; \<^verbatim>\<open>n >>> 1\<close> is the logical shift of the 32-bit value.
\<close>

function bytesToChannel_loop :: "32 word \<Rightarrow> int \<Rightarrow> 32 word \<times> int" where
  "bytesToChannel_loop n channel =
     (if n \<noteq> 1 \<and> channel \<le> 15 then bytesToChannel_loop (drop_bit 1 n) (channel + 1)
      else (n, channel))"
  by pat_completeness auto
termination
  by (relation "measure (\<lambda>(n, channel). nat (16 - channel))") auto

definition bytesToChannel :: "int \<Rightarrow> int \<Rightarrow> int" where
  "bytesToChannel high low =
     (let word = push_bit 8 (word_of_int high :: 32 word) OR word_of_int low;
          channel = snd (bytesToChannel_loop word 1)
      in if channel \<le> 15 \<and> (word AND (word - 1)) = 0 then channel else 0)"

text \<open>\<^verbatim>\<open>bitmapToChannels\<close>: \<^verbatim>\<open>i\<close> runs over 0..14, pushing \<^verbatim>\<open>i + 1\<close> for a set bit.\<close>

definition bitmapToChannels :: "int \<Rightarrow> int \<Rightarrow> int list" where
  "bitmapToChannels high low =
     (let word = push_bit 8 (word_of_int high :: 32 word) OR word_of_int low
      in map (\<lambda>i. int i + 1) (filter (\<lambda>i. word AND push_bit i 1 \<noteq> 0) [0..<15]))"

text \<open>
  \<^verbatim>\<open>buildFrame(cmd, payloadBytes)\<close>. The length is stored into a \<^verbatim>\<open>Buffer\<close>, hence
  reduced modulo 256 (\<open>of_nat\<close> into \<open>byte\<close>).
\<close>

definition buildFrame :: "byte \<Rightarrow> byte list \<Rightarrow> byte list" where
  "buildFrame cmd payloadBytes =
     (let body = cmd # payloadBytes;
          len = length body + 1;
          headerAndLength = [HEADER, of_nat len];
          all = headerAndLength @ body;
          csum = checksum all
      in all @ [of_nat csum])"

text \<open>
  \<^verbatim>\<open>parseFrame(buffer)\<close>: \<open>None\<close> is the returned \<^verbatim>\<open>null\<close>. \<^verbatim>\<open>body[0]\<close> of an empty
  body is \<^verbatim>\<open>undefined\<close>, so the command is optional; \<^verbatim>\<open>subarray(2, total - 1)\<close> is
  empty when \<^verbatim>\<open>total - 1 < 2\<close>.
\<close>

definition parseFrame :: "byte list \<Rightarrow> (byte option \<times> byte list) option" where
  "parseFrame buffer =
     (if length buffer < 3 then None
      else
        let len = unat (buffer ! 1);
            total = 2 + len
        in if length buffer < total then None
           else
             let frame = take total buffer;
                 body = drop 2 (take (total - 1) frame);
                 receivedChecksum = unat (frame ! (total - 1));
                 expectedChecksum = checksum (take (total - 1) frame)
             in if receivedChecksum \<noteq> expectedChecksum then None
                else Some (case body of [] \<Rightarrow> None | c # _ \<Rightarrow> Some c, drop 1 body))"

definition buildEasyCheck :: "byte list" where
  "buildEasyCheck = buildFrame CMD_EASY_CHECK []"

definition buildEasyInfo :: "int \<Rightarrow> js_error + byte list" where
  "buildEasyInfo channel =
     (case channelToBytes channel of
        Inl e \<Rightarrow> Inl e
      | Inr (high, low) \<Rightarrow> Inr (buildFrame CMD_EASY_INFO [word_of_int high, word_of_int low]))"

definition buildEasySend :: "int \<Rightarrow> int \<Rightarrow> js_error + byte list" where
  "buildEasySend channel payloadByte =
     (case channelToBytes channel of
        Inl e \<Rightarrow> Inl e
      | Inr (high, low) \<Rightarrow>
          Inr (buildFrame CMD_EASY_SEND
                 [word_of_int high, word_of_int low, word_of_int payloadByte]))"

section \<open>Command dispatcher (src/src/stick.js) and status store (state.js)\<close>

datatype req_type = easy_check | easy_info | easy_send

text \<open>
  A queue item \<^verbatim>\<open>{ type, channel?, payload?, resolve, reject }\<close>. The object and its
  promise are identified by \<open>rid\<close>; an absent field is \<open>None\<close>.
\<close>

record item =
  rid :: nat
  type :: req_type
  channel :: "int option"
  payload :: "int option"

text \<open>How a promise was settled: \<^verbatim>\<open>resolve(channels)\<close>, \<^verbatim>\<open>resolve(undefined)\<close> or \<^verbatim>\<open>reject(err)\<close>.\<close>

datatype outcome = Resolved "int list option" | Rejected js_error

text \<open>
  The module variables of stick.js (\<open>queue\<close>, \<open>readBuffer\<close>, \<open>responseTimer\<close>,
  \<open>processing\<close>) and of state.js (\<open>learnedChannels\<close>, \<open>channelStatus\<close>), together with
  what the event loop and the transport hold for the module:
  \<^item> \<open>timers\<close>: the armed response timeouts, each with its handle and the item its
    callback captured, oldest first (all have the same duration);
  \<^item> \<open>ticks\<close>: the number of scheduled \<^verbatim>\<open>setTimeout(() => processNext(), ...)\<close> callbacks;
  \<^item> \<open>writes\<close>: the \<^verbatim>\<open>serial.write\<close> promises not settled yet, each with the item its
    callbacks captured, oldest first;
  \<^item> \<open>written\<close>: every buffer handed to \<^verbatim>\<open>serial.write\<close>, with the item it was built for;
  \<^item> \<open>settled\<close>: the promises settled so far, in the order the callers observe;
  \<^item> \<open>fresh\<close>: the next unused object identity (items and timer handles).
  \<open>responseTimer\<close> holds a timer handle or \<^verbatim>\<open>null\<close>. Delays are not modelled: a pending
  callback may run at any time.
\<close>

record stick =
  queue :: "item list"
  readBuffer :: "byte list"
  responseTimer :: "nat option"
  processing :: bool
  learnedChannels :: "int list"
  channelStatus :: "(int \<times> byte option) list"
  timers :: "(nat \<times> item) list"
  ticks :: nat
  writes :: "item list"
  written :: "(item \<times> byte list) list"
  settled :: "(nat \<times> outcome) list"
  fresh :: nat

definition init :: stick where
  "init = \<lparr> queue = [], readBuffer = [], responseTimer = None, processing = False,
            learnedChannels = [], channelStatus = [], timers = [], ticks = 0, writes = [],
            written = [], settled = [], fresh = 0 \<rparr>"

text \<open>Settling a promise: only the first \<^verbatim>\<open>resolve\<close> or \<^verbatim>\<open>reject\<close> of a promise counts.\<close>

definition settle :: "stick \<Rightarrow> nat \<Rightarrow> outcome \<Rightarrow> stick" where
  "settle s r out =
     (if r \<in> set (map fst (settled s)) then s else s\<lparr>settled := settled s @ [(r, out)]\<rparr>)"

text \<open>\<^verbatim>\<open>setTimeout(() => processNext(), commandDelayMs)\<close>.\<close>

definition schedule_processNext :: "stick \<Rightarrow> stick" where
  "schedule_processNext s = s\<lparr>ticks := Suc (ticks s)\<rparr>"

definition clearResponseTimer :: "stick \<Rightarrow> stick" where
  "clearResponseTimer s =
     (case responseTimer s of
        None \<Rightarrow> s
      | Some h \<Rightarrow> s\<lparr>timers := filter (\<lambda>(h', it). h' \<noteq> h) (timers s), responseTimer := None\<rparr>)"

text \<open>state.js: the sorted copy of the channel list, and \<^verbatim>\<open>Map.set\<close>.\<close>

definition setLearnedChannels :: "stick \<Rightarrow> int list \<Rightarrow> stick" where
  "setLearnedChannels s channels = s\<lparr>learnedChannels := sort channels\<rparr>"

definition setChannelStatus :: "stick \<Rightarrow> int \<Rightarrow> byte option \<Rightarrow> stick" where
  "setChannelStatus s ch statusByte =
     s\<lparr>channelStatus := AList.update ch statusByte (channelStatus s)\<rparr>"

text \<open>
  \<^verbatim>\<open>payload[i]\<close> is \<^verbatim>\<open>undefined\<close> beyond the end of the buffer, and the bitwise operators
  of \<open>bytesToChannel\<close> and \<open>bitmapToChannels\<close> read \<^verbatim>\<open>undefined\<close> as 0.
\<close>

definition nth_opt :: "'a list \<Rightarrow> nat \<Rightarrow> 'a option" where
  "nth_opt xs i = (if i < length xs then Some (xs ! i) else None)"

definition js_int :: "byte option \<Rightarrow> int" where
  "js_int v = (case v of None \<Rightarrow> 0 | Some b \<Rightarrow> uint b)"

text \<open>The body of the loop of \<^verbatim>\<open>onSerialData\<close> for a frame that parsed.\<close>

definition handleParsed :: "stick \<Rightarrow> byte option \<times> byte list \<Rightarrow> stick" where
  "handleParsed s parsed =
     (if fst parsed = Some RSP_EASY_CONFIRM then
        let high = nth_opt (snd parsed) 0;
            low = nth_opt (snd parsed) 1;
            channels = bitmapToChannels (js_int high) (js_int low);
            s1 = setLearnedChannels s channels;
            s2 = clearResponseTimer s1
        in (case queue s2 of
              [] \<Rightarrow> s2
            | it # rest \<Rightarrow>
                if type it = easy_check then
                  schedule_processNext
                    ((settle (s2\<lparr>queue := rest\<rparr>) (rid it) (Resolved (Some channels)))
                       \<lparr>processing := False\<rparr>)
                else s2)
      else if fst parsed = Some RSP_EASY_ACK then
        let high = nth_opt (snd parsed) 0;
            low = nth_opt (snd parsed) 1;
            ch = bytesToChannel (js_int high) (js_int low);
            statusByte = nth_opt (snd parsed) 2;
            s1 = (if ch \<ge> 1 \<and> ch \<le> 15 then setChannelStatus s ch statusByte else s);
            s2 = clearResponseTimer s1
        in (case queue s2 of
              [] \<Rightarrow> s2
            | it # rest \<Rightarrow>
                if type it = easy_info \<or> type it = easy_send then
                  schedule_processNext
                    ((settle (s2\<lparr>queue := rest\<rparr>) (rid it) (Resolved None))
                       \<lparr>processing := False\<rparr>)
                else s2)
      else s)"

lemma readBuffer_clearResponseTimer [simp]:
  "readBuffer (clearResponseTimer s) = readBuffer s"
  by (simp add: clearResponseTimer_def split: option.splits)

lemma readBuffer_settle [simp]: "readBuffer (settle s r out) = readBuffer s"
  by (simp add: settle_def)

lemma readBuffer_handleParsed [simp]: "readBuffer (handleParsed s parsed) = readBuffer s"
  by (simp add: handleParsed_def Let_def schedule_processNext_def setLearnedChannels_def
      setChannelStatus_def split: list.splits)

text \<open>
  The \<^verbatim>\<open>while (readBuffer.length >= 2)\<close> loop of \<^verbatim>\<open>onSerialData\<close>: \<^verbatim>\<open>break\<close> when the
  declared frame is not complete, \<^verbatim>\<open>continue\<close> when the frame does not parse.
\<close>

function onSerialData_loop :: "stick \<Rightarrow> stick" where
  "onSerialData_loop s =
     (if length (readBuffer s) \<ge> 2 then
        let len = unat (readBuffer s ! 1);
            total = 2 + len
        in if length (readBuffer s) < total then s
           else
             let frame = take total (readBuffer s);
                 s1 = s\<lparr>readBuffer := drop total (readBuffer s)\<rparr>
             in (case parseFrame frame of
                   None \<Rightarrow> onSerialData_loop s1
                 | Some parsed \<Rightarrow> onSerialData_loop (handleParsed s1 parsed))
      else s)"
  by pat_completeness auto
termination
  by (relation "measure (\<lambda>s. length (readBuffer s))") auto

declare onSerialData_loop.simps [simp del]

definition onSerialData :: "stick \<Rightarrow> byte list \<Rightarrow> stick" where
  "onSerialData s data = onSerialData_loop (s\<lparr>readBuffer := readBuffer s @ data\<rparr>)"

text \<open>
  The \<^verbatim>\<open>try\<close> block of \<^verbatim>\<open>processNext\<close>: the buffer to write, or the error the item is
  rejected with (a thrown \<^verbatim>\<open>RangeError\<close>, or \<^verbatim>\<open>Invalid queue item\<close>).
\<close>

definition build_request :: "item \<Rightarrow> js_error + byte list" where
  "build_request it =
     (if type it = easy_check then Inr buildEasyCheck
      else if type it = easy_info \<and> channel it \<noteq> None then buildEasyInfo (the (channel it))
      else if type it = easy_send \<and> channel it \<noteq> None \<and> payload it \<noteq> None
        then buildEasySend (the (channel it)) (the (payload it))
      else Inl InvalidQueueItem)"

text \<open>
  \<^verbatim>\<open>processNext\<close>. On an error the head is shifted and rejected and the next run is
  scheduled; otherwise the buffer goes to \<^verbatim>\<open>serial.write\<close>, whose promise stays pending.
\<close>

definition processNext :: "stick \<Rightarrow> stick" where
  "processNext s =
     (if processing s \<or> queue s = [] then s
      else
        let s1 = s\<lparr>processing := True\<rparr>;
            it = hd (queue s1)
        in (case build_request it of
              Inl e \<Rightarrow>
                schedule_processNext
                  ((settle (s1\<lparr>queue := tl (queue s1)\<rparr>) (rid it) (Rejected e))
                     \<lparr>processing := False\<rparr>)
            | Inr buffer \<Rightarrow>
                s1\<lparr>written := written s1 @ [(it, buffer)], writes := writes s1 @ [it]\<rparr>))"

text \<open>The two callbacks of \<^verbatim>\<open>serial.write(buffer).then(...)\<close>, for the captured item.\<close>

definition write_resolved :: "stick \<Rightarrow> item \<Rightarrow> stick" where
  "write_resolved s it =
     s\<lparr>responseTimer := Some (fresh s), timers := timers s @ [(fresh s, it)],
       fresh := Suc (fresh s)\<rparr>"

definition write_rejected :: "stick \<Rightarrow> item \<Rightarrow> stick" where
  "write_rejected s it =
     schedule_processNext
       ((settle (s\<lparr>queue := tl (queue s)\<rparr>) (rid it) (Rejected WriteError))
          \<lparr>processing := False\<rparr>)"

text \<open>The callback of the response timer; \<^verbatim>\<open>queue[0] === item\<close> compares identities.\<close>

definition response_timeout :: "stick \<Rightarrow> item \<Rightarrow> stick" where
  "response_timeout s it =
     (let s1 = s\<lparr>responseTimer := None\<rparr>;
          s2 = (case queue s1 of
                  [] \<Rightarrow> s1
                | q # rest \<Rightarrow>
                    if rid q = rid it
                    then settle (s1\<lparr>queue := rest\<rparr>) (rid it) (Rejected ResponseTimeout)
                    else s1)
      in schedule_processNext (s2\<lparr>processing := False\<rparr>))"

text \<open>\<^verbatim>\<open>enqueue\<close> and the three public requests.\<close>

definition enqueue :: "stick \<Rightarrow> req_type \<Rightarrow> int option \<Rightarrow> int option \<Rightarrow> stick" where
  "enqueue s t c p =
     (let it = \<lparr>rid = fresh s, type = t, channel = c, payload = p\<rparr>;
          s1 = s\<lparr>queue := queue s @ [it], fresh := Suc (fresh s)\<rparr>
      in if length (queue s1) = 1 \<and> \<not> processing s1 then schedule_processNext s1 else s1)"

definition easyCheck :: "stick \<Rightarrow> stick" where
  "easyCheck s = enqueue s easy_check None None"

definition easyInfo :: "stick \<Rightarrow> int \<Rightarrow> stick" where
  "easyInfo s ch = enqueue s easy_info (Some ch) None"

definition easySend :: "stick \<Rightarrow> int \<Rightarrow> int \<Rightarrow> stick" where
  "easySend s ch payloadByte = enqueue s easy_send (Some ch) (Some payloadByte)"

text \<open>
  \<^verbatim>\<open>stop()\<close>: the response timer is cleared, the buffer emptied, \<open>processing\<close> reset, every
  item of the queue rejected in queue order and the queue emptied. Scheduled
  \<^verbatim>\<open>processNext\<close> callbacks, pending writes and timers other than \<open>responseTimer\<close> stay
  as they are.
\<close>

fun reject_all :: "stick \<Rightarrow> item list \<Rightarrow> stick" where
  "reject_all s [] = s"
| "reject_all s (it # its) = reject_all (settle s (rid it) (Rejected StickStopped)) its"

definition stop :: "stick \<Rightarrow> stick" where
  "stop s =
     (let s1 = clearResponseTimer s;
          s2 = s1\<lparr>readBuffer := [], processing := False\<rparr>;
          s3 = reject_all s2 (queue s2)
      in s3\<lparr>queue := []\<rparr>)"

text \<open>
  What can happen to the module: a caller issues a request or calls \<^verbatim>\<open>stop()\<close>, a
  scheduled \<^verbatim>\<open>processNext\<close> runs, the oldest pending write resolves or rejects, the oldest
  armed response timer fires, or the transport delivers bytes. An event that is not
  pending gives \<open>None\<close>. \<^verbatim>\<open>start()\<close> and the listener removal of \<^verbatim>\<open>stop()\<close> only register
  and unregister \<open>onSerialData\<close> with the transport and touch no variable of the module:
  \<open>init\<close> is the module with the listener registered, and a delivery after \<open>Stop\<close> is
  one after a later \<^verbatim>\<open>start()\<close>.
\<close>

datatype event =
    EasyCheck
  | EasyInfo int
  | EasySend int int
  | Tick
  | WriteDone
  | WriteFailed
  | TimerFired
  | SerialData "byte list"
  | Stop

fun step :: "stick \<Rightarrow> event \<Rightarrow> stick option" where
  "step s EasyCheck = Some (easyCheck s)"
| "step s (EasyInfo ch) = Some (easyInfo s ch)"
| "step s (EasySend ch p) = Some (easySend s ch p)"
| "step s Tick =
     (if ticks s = 0 then None else Some (processNext (s\<lparr>ticks := ticks s - 1\<rparr>)))"
| "step s WriteDone =
     (case writes s of [] \<Rightarrow> None | it # rest \<Rightarrow> Some (write_resolved (s\<lparr>writes := rest\<rparr>) it))"
| "step s WriteFailed =
     (case writes s of [] \<Rightarrow> None | it # rest \<Rightarrow> Some (write_rejected (s\<lparr>writes := rest\<rparr>) it))"
| "step s TimerFired =
     (case timers s of
        [] \<Rightarrow> None
      | (h, it) # rest \<Rightarrow> Some (response_timeout (s\<lparr>timers := rest\<rparr>) it))"
| "step s (SerialData d) = Some (onSerialData s d)"
| "step s Stop = Some (stop s)"

fun run :: "stick \<Rightarrow> event list \<Rightarrow> stick option" where
  "run s [] = Some s"
| "run s (e # es) = (case step s e of None \<Rightarrow> None | Some s' \<Rightarrow> run s' es)"




fun responded :: "outcome \<Rightarrow> bool" where
  "responded (Resolved v) = True"
| "responded (Rejected e) = (e = ResponseTimeout \<or> e = WriteError \<or> e = StickStopped)"

section \<open>Codec properties\<close>

lemma checksum_lt: "checksum bs < 256"
  by (simp add: checksum_def)

lemma unat_checksum_byte: "unat (of_nat (checksum bs) :: byte) = checksum bs"
  using checksum_lt [of bs] by (simp add: unat_of_nat)

lemma len_byte: "n \<le> 253 \<Longrightarrow> unat (of_nat (n + 2) :: byte) = n + 2"
proof -
  assume a: "n \<le> 253"
  have "unat (of_nat (n + 2) :: byte) = (n + 2) mod 2 ^ LENGTH(8)" by (rule unat_of_nat)
  then show ?thesis using a by simp
qed

lemma complement_inj:
  "a < 256 \<Longrightarrow> b < 256 \<Longrightarrow> ((256 - a) mod 256 = (256 - b) mod 256) = (a = (b::nat))"
  by (cases "a = 0"; cases "b = 0") (simp_all, linarith)

lemma checksum_eq_iff:
  "checksum xs = checksum ys \<longleftrightarrow>
     sum_list (map unat xs) mod 256 = sum_list (map unat ys) mod 256"
  unfolding checksum_def by (rule complement_inj) simp_all

lemma sum_unat_update:
  "i < length xs \<Longrightarrow>
     sum_list (map unat (xs[i := b])) + unat (xs ! i) = sum_list (map unat xs) + unat (b::byte)"
proof (induction xs arbitrary: i)
  case Nil
  then show ?case by simp
next
  case (Cons x xs)
  then show ?case by (cases i) auto
qed

text \<open>Replacing one summed byte by a different one always changes the checksum.\<close>

lemma checksum_update_neq:
  assumes "i < length xs" "b \<noteq> xs ! i"
  shows "checksum (xs[i := b]) \<noteq> checksum xs"
proof
  assume "checksum (xs[i := b]) = checksum xs"
  then have m: "sum_list (map unat (xs[i := b])) mod 256 = sum_list (map unat xs) mod 256"
    by (simp add: checksum_eq_iff)
  let ?S' = "sum_list (map unat (xs[i := b]))" and ?S = "sum_list (map unat xs)"
  have e: "?S' + unat (xs ! i) = ?S + unat b" using assms(1) by (rule sum_unat_update)
  have w: "(of_nat ?S' :: byte) = of_nat ?S"
    using m by (simp add: word_of_nat_eq_iff take_bit_eq_mod)
  have "(of_nat (?S' + unat (xs ! i)) :: byte) = of_nat (?S + unat b)"
    using e by (rule arg_cong)
  then have "(of_nat ?S' :: byte) + xs ! i = of_nat ?S + b" by simp
  then have "xs ! i = b" unfolding w by simp
  then show False using assms(2) by simp
qed

text \<open>
  What \<open>parseFrame\<close> does with a buffer whose declared length covers it exactly: the last
  byte is compared with the checksum of the rest.
\<close>

lemma parseFrame_snoc:
  assumes "2 \<le> length xs" "unat (xs ! Suc 0) + 1 = length xs"
  shows "parseFrame (xs @ [c]) =
     (if unat c \<noteq> checksum xs then None
      else Some (case drop 2 xs of [] \<Rightarrow> None | c # _ \<Rightarrow> Some c, drop 1 (drop 2 xs)))"
proof -
  have n1: "(xs @ [c]) ! 1 = xs ! 1" using assms(1) by (simp add: nth_append)
  have tot: "2 + unat ((xs @ [c]) ! 1) = length (xs @ [c])" unfolding n1 using assms(2) by simp
  have tk: "take (length (xs @ [c]) - 1) (xs @ [c]) = xs" by simp
  have lst: "(xs @ [c]) ! (length (xs @ [c]) - 1) = c" by simp
  have l3: "\<not> length (xs @ [c]) < 3" using assms(1) by simp
  show ?thesis
    unfolding parseFrame_def Let_def tot using l3
    by (simp only: tk lst take_all order_refl if_False simp_thms less_irrefl)
qed

lemma buildFrame_all:
  assumes "length payloadBytes \<le> 253" "all = [HEADER, of_nat (length payloadBytes + 2), cmd] @ payloadBytes"
  shows "buildFrame cmd payloadBytes = all @ [of_nat (checksum all)]"
    and "length all = length payloadBytes + 3"
    and "unat (all ! Suc 0) = length payloadBytes + 2"
    and "drop 2 all = cmd # payloadBytes"
  using assms len_byte [of "length payloadBytes"] by (simp_all add: buildFrame_def Let_def)

lemma channels_1_15: "[1..15::int] = [1, 2, 3, 4, 5, 6, 7, 8, 9, 10, 11, 12, 13, 14, 15]"
  by code_simp

lemma channel_roundtrip_all:
  "list_all (\<lambda>c. case channelToBytes c of Inl e \<Rightarrow> False
                 | Inr (high, low) \<Rightarrow> bytesToChannel high low = c)
     [1, 2, 3, 4, 5, 6, 7, 8, 9, 10, 11, 12, 13, 14, 15]"
  by (simp add: channelToBytes_def bytesToChannel_def Let_def)

text \<open>
  C1. The easy_check frame \<^verbatim>\<open>buildFrame(0x4A, [])\<close>. The bytes AA 02 4A add up to
  246, so the checksum byte is 0x0A; the frame is not AA 02 4A 9C.
\<close>

theorem C1_buildFrame_check_not_9C:
  "buildFrame 0x4A [] \<noteq> [0xAA, 0x02, 0x4A, 0x9C]"
  by (simp add: buildFrame_def checksum_def HEADER_def)

text \<open>
  C1, as the code has it. \<^verbatim>\<open>buildFrame(0x4A, [])\<close> is exactly AA 02 4A 0A, and 0x0A is the
  checksum of AA 02 4A.
\<close>

theorem C1_buildFrame_check:
  "buildFrame 0x4A [] = [0xAA, 0x02, 0x4A, 0x0A] \<and> checksum [0xAA, 0x02, 0x4A] = 0x0A"
  by (simp add: buildFrame_def checksum_def HEADER_def)

text \<open>
  C6. Round trip of \<open>parseFrame\<close> after \<open>buildFrame\<close>. It fails for a payload of 254
  bytes: the stored length byte wraps to 0 and the frame is rejected.
\<close>

theorem C6_roundtrip_fails_long_payload:
  "parseFrame (buildFrame 0x4A (replicate 254 0)) = None"
  by (simp add: parseFrame_def buildFrame_def checksum_def HEADER_def Let_def)

text \<open>
  C6, as the code has it. For every command byte and every payload of at most 253 bytes (so that
  the length fits its byte), parsing the built frame succeeds and returns the command
  and the payload.
\<close>

theorem C6_roundtrip:
  assumes "length payloadBytes \<le> 253"
  shows "parseFrame (buildFrame cmd payloadBytes) = Some (Some cmd, payloadBytes)"
proof -
  define all where "all = [HEADER, of_nat (length payloadBytes + 2), cmd] @ payloadBytes"
  note a = buildFrame_all [OF assms all_def]
  have "parseFrame (all @ [of_nat (checksum all)]) = Some (Some cmd, payloadBytes)"
    by (subst parseFrame_snoc) (simp_all add: a unat_checksum_byte)
  then show ?thesis by (simp only: a(1))
qed

theorem C6_roundtrip_witness:
  "length [0x00, 0x01 :: byte] \<le> 253
   \<and> parseFrame (buildFrame 0x4E [0x00, 0x01]) = Some (Some 0x4E, [0x00, 0x01])"
  using C6_roundtrip [of "[0x00, 0x01]" "0x4E"] by simp

text \<open>
  C7. For every channel \<open>c\<close> in 1..15, \<open>channelToBytes\<close> succeeds and \<open>bytesToChannel\<close>
  of its two bytes is \<open>c\<close> again.
\<close>

theorem C7_channel_roundtrip:
  assumes "1 \<le> c" "c \<le> 15"
  shows "\<exists>high low. channelToBytes c = Inr (high, low) \<and> bytesToChannel high low = c"
proof -
  have "c \<in> set [1..15]" using assms by simp
  then have "c \<in> set [1, 2, 3, 4, 5, 6, 7, 8, 9, 10, 11, 12, 13, 14, 15::int]"
    by (simp only: channels_1_15)
  then have "case channelToBytes c of Inl e \<Rightarrow> False
             | Inr (high, low) \<Rightarrow> bytesToChannel high low = c"
    using channel_roundtrip_all unfolding list_all_iff by blast
  then show ?thesis by (auto split: sum.splits)
qed

theorem C7_channel_roundtrip_witness:
  "(1::int) \<le> 12 \<and> (12::int) \<le> 15
   \<and> (\<exists>high low. channelToBytes 12 = Inr (high, low) \<and> bytesToChannel high low = 12)"
  using C7_channel_roundtrip [of 12] by simp

text \<open>
  C8. Corrupting one byte of a built frame. The claim fails at the length byte: in the
  easy_send frame for channel 12, AA 05 4C 08 00 20 DD, replacing the length 05 by 02
  leaves a shorter prefix AA 02 4C 08 whose last byte is its own checksum, and
  \<open>parseFrame\<close> accepts it. It also fails for a payload too long for the length byte:
  with 256 payload bytes the stored length is 02, and a change behind the parsed prefix
  goes unnoticed.
\<close>

theorem C8_corrupted_frame_accepted:
  "buildFrame 0x4C [0x08, 0x00, 0x20] = [0xAA, 0x05, 0x4C, 0x08, 0x00, 0x20, 0xDD]
   \<and> buildFrame 0x4C [0x08, 0x00, 0x20] ! 1 \<noteq> 0x02
   \<and> parseFrame ((buildFrame 0x4C [0x08, 0x00, 0x20])[1 := 0x02]) = Some (Some 0x4C, [])
   \<and> length (buildFrame 0x4C (0x08 # replicate 255 0)) = 260
   \<and> buildFrame 0x4C (0x08 # replicate 255 0) ! 259 \<noteq> 0x01
   \<and> parseFrame ((buildFrame 0x4C (0x08 # replicate 255 0))[259 := 0x01])
       = Some (Some 0x4C, [])"
  by (simp add: parseFrame_def buildFrame_def checksum_def HEADER_def Let_def nth_append
      sum_list_replicate)

text \<open>
  C8, as the code has it. For a frame built from a payload of at most 253 bytes, replacing the
  byte at any position other than the length byte by a different byte, or replacing the
  length byte by a larger one, makes \<open>parseFrame\<close> return \<^verbatim>\<open>null\<close>.
\<close>

theorem C8_corruption_rejected:
  assumes n: "length payloadBytes \<le> 253"
    and i: "i < length (buildFrame cmd payloadBytes)"
    and b: "b \<noteq> buildFrame cmd payloadBytes ! i"
    and pos: "i \<noteq> 1 \<or> unat (buildFrame cmd payloadBytes ! 1) < unat b"
  shows "parseFrame ((buildFrame cmd payloadBytes)[i := b]) = None"
proof -
  define all where "all = [HEADER, of_nat (length payloadBytes + 2), cmd] @ payloadBytes"
  note a = buildFrame_all [OF n all_def]
  let ?c = "of_nat (checksum all) :: byte"
  have i': "i < length all + 1" using i unfolding a(1) by simp
  have b': "b \<noteq> (all @ [?c]) ! i" using b unfolding a(1) .
  show ?thesis
  proof (cases "i = 1")
    case True
    then have big: "length all + 1 < 2 + unat b" using pos a by (simp add: nth_append)
    have "(all @ [?c])[i := b] ! 1 = b" using True a(2) by simp
    then show ?thesis unfolding a(1) parseFrame_def Let_def using big by simp
  next
    case False
    show ?thesis
    proof (cases "i = length all")
      case True
      have upd: "(all @ [?c])[i := b] = all @ [b]" using True by simp
      have "b \<noteq> ?c" using b' True by simp
      have "unat b \<noteq> checksum all"
      proof
        assume "unat b = checksum all"
        then have "(of_nat (unat b) :: byte) = ?c" by (rule arg_cong)
        then show False using \<open>b \<noteq> ?c\<close> by simp
      qed
      then show ?thesis
        unfolding a(1) upd by (subst parseFrame_snoc) (simp_all add: a)
    next
      case F2: False
      then have i2: "i < length all" using i' by simp
      have upd: "(all @ [?c])[i := b] = all[i := b] @ [?c]"
        using i2 by (simp add: list_update_append)
      have "b \<noteq> all ! i" using b' i2 by (simp add: nth_append)
      then have ne: "checksum (all[i := b]) \<noteq> checksum all"
        using i2 by (intro checksum_update_neq)
      have n1: "all[i := b] ! Suc 0 = all ! Suc 0" using False by simp
      show ?thesis
        unfolding a(1) upd using ne
        by (subst parseFrame_snoc) (simp_all add: a n1 unat_checksum_byte)
    qed
  qed
qed

theorem C8_corruption_rejected_witness:
  "length [0x00, 0x01 :: byte] \<le> 253
   \<and> 3 < length (buildFrame 0x4E [0x00, 0x01])
   \<and> 0xFF \<noteq> buildFrame 0x4E [0x00, 0x01] ! 3
   \<and> parseFrame ((buildFrame 0x4E [0x00, 0x01])[3 := 0xFF]) = None"
  using C8_corruption_rejected [of "[0x00, 0x01]" 3 "0x4E" "0xFF"]
  by (simp add: buildFrame_def checksum_def HEADER_def)

section \<open>Dispatcher properties\<close>

lemma settle_readBuffer_update:
  "settle (s\<lparr>readBuffer := b\<rparr>) r out = (settle s r out)\<lparr>readBuffer := b\<rparr>"
  by (simp add: settle_def)

lemma schedule_readBuffer_update:
  "schedule_processNext (s\<lparr>readBuffer := b\<rparr>) = (schedule_processNext s)\<lparr>readBuffer := b\<rparr>"
  by (simp add: schedule_processNext_def)

lemma clear_readBuffer_update:
  "clearResponseTimer (s\<lparr>readBuffer := b\<rparr>) = (clearResponseTimer s)\<lparr>readBuffer := b\<rparr>"
  by (simp add: clearResponseTimer_def split: option.splits)

lemma learned_readBuffer_update:
  "setLearnedChannels (s\<lparr>readBuffer := b\<rparr>) cs = (setLearnedChannels s cs)\<lparr>readBuffer := b\<rparr>"
  by (simp add: setLearnedChannels_def)

lemma status_readBuffer_update:
  "setChannelStatus (s\<lparr>readBuffer := b\<rparr>) c v = (setChannelStatus s c v)\<lparr>readBuffer := b\<rparr>"
  by (simp add: setChannelStatus_def)

lemmas readBuffer_update_comm = settle_readBuffer_update schedule_readBuffer_update
  clear_readBuffer_update learned_readBuffer_update status_readBuffer_update

lemma if_readBuffer_update:
  "(if c then x\<lparr>readBuffer := b\<rparr> else y\<lparr>readBuffer := b\<rparr>) = (if c then x else y)\<lparr>readBuffer := (b :: byte list)\<rparr>"
  by simp

lemma resolve_head_readBuffer_update:
  "(case queue (s2\<lparr>readBuffer := b\<rparr>) of
      [] \<Rightarrow> s2\<lparr>readBuffer := b\<rparr>
    | it # rest \<Rightarrow>
        if P it then
          schedule_processNext
            ((settle (s2\<lparr>readBuffer := b\<rparr>\<lparr>queue := rest\<rparr>) (rid it) out)\<lparr>processing := False\<rparr>)
        else s2\<lparr>readBuffer := b\<rparr>)
   = (case queue s2 of
      [] \<Rightarrow> s2
    | it # rest \<Rightarrow>
        if P it then
          schedule_processNext
            ((settle (s2\<lparr>queue := rest\<rparr>) (rid it) out)\<lparr>processing := False\<rparr>)
        else s2)\<lparr>readBuffer := b\<rparr>"
  by (cases "queue s2") (simp_all add: settle_def schedule_processNext_def)

lemma handleParsed_readBuffer_update:
  "handleParsed (s\<lparr>readBuffer := b\<rparr>) parsed = (handleParsed s parsed)\<lparr>readBuffer := b\<rparr>"
proof -
  consider "fst parsed = Some RSP_EASY_CONFIRM"
    | "fst parsed \<noteq> Some RSP_EASY_CONFIRM" "fst parsed = Some RSP_EASY_ACK"
    | "fst parsed \<noteq> Some RSP_EASY_CONFIRM" "fst parsed \<noteq> Some RSP_EASY_ACK"
    by blast
  then show ?thesis
  proof cases
    case 1
    have c: "(fst parsed = Some RSP_EASY_CONFIRM) = True" using 1 by simp
    show ?thesis
      unfolding handleParsed_def Let_def c if_True
      by (simp only: learned_readBuffer_update clear_readBuffer_update
          resolve_head_readBuffer_update)
  next
    case 2
    have c: "(fst parsed = Some RSP_EASY_CONFIRM) = False" "(fst parsed = Some RSP_EASY_ACK) = True"
      using 2 by simp_all
    show ?thesis
      unfolding handleParsed_def Let_def c if_True if_False
      by (simp only: status_readBuffer_update if_readBuffer_update clear_readBuffer_update
          resolve_head_readBuffer_update)
  next
    case 3
    then show ?thesis by (simp add: handleParsed_def)
  qed
qed

text \<open>One unfolding of the loop, for a buffer that starts with a complete frame or not.\<close>

lemma loop_complete_frame:
  assumes "2 \<le> length (readBuffer s)" "\<not> length (readBuffer s) < 2 + unat (readBuffer s ! 1)"
  shows "onSerialData_loop s =
    (case parseFrame (take (2 + unat (readBuffer s ! 1)) (readBuffer s)) of
       None \<Rightarrow> onSerialData_loop (s\<lparr>readBuffer := drop (2 + unat (readBuffer s ! 1)) (readBuffer s)\<rparr>)
     | Some parsed \<Rightarrow> onSerialData_loop (handleParsed (s\<lparr>readBuffer := drop (2 + unat (readBuffer s ! 1)) (readBuffer s)\<rparr>) parsed))"
  by (subst onSerialData_loop.simps) (simp only: assms Let_def if_True if_False)

lemma loop_incomplete:
  assumes "\<not> (2 \<le> length (readBuffer s) \<and> \<not> length (readBuffer s) < 2 + unat (readBuffer s ! 1))"
  shows "onSerialData_loop s = s"
  using assms by (subst onSerialData_loop.simps) (auto simp add: Let_def)

text \<open>
  The loop is insensitive to where a delivery ends: bytes appended before the loop runs
  or after it has consumed the complete frames give the same result.
\<close>

lemma loop_append:
  "onSerialData_loop (s\<lparr>readBuffer := readBuffer s @ d\<rparr>) =
   onSerialData_loop ((onSerialData_loop s)\<lparr>readBuffer := readBuffer (onSerialData_loop s) @ d\<rparr>)"
proof (induction s rule: onSerialData_loop.induct)
  case (1 s)
  let ?rb = "readBuffer s"
  let ?total = "2 + unat (?rb ! 1)"
  show ?case
  proof (cases "2 \<le> length ?rb \<and> \<not> length ?rb < ?total")
    case False
    then show ?thesis by (simp add: loop_incomplete)
  next
    case True
    let ?s1 = "s\<lparr>readBuffer := drop ?total ?rb\<rparr>"
    let ?sd = "s\<lparr>readBuffer := ?rb @ d\<rparr>"
    have c1: "2 \<le> length (readBuffer ?sd)" using True by simp
    have n1: "readBuffer ?sd ! 1 = ?rb ! 1" using True by (simp add: nth_append)
    have c2: "\<not> length (readBuffer ?sd) < 2 + unat (readBuffer ?sd ! 1)"
      unfolding n1 using True by simp
    have tk: "take (2 + unat (readBuffer ?sd ! 1)) (readBuffer ?sd) = take ?total ?rb"
      unfolding n1 using True by simp
    have dr: "?sd\<lparr>readBuffer := drop (2 + unat (readBuffer ?sd ! 1)) (readBuffer ?sd)\<rparr>
              = ?s1\<lparr>readBuffer := readBuffer ?s1 @ d\<rparr>"
      unfolding n1 using True by simp
    show ?thesis
    proof (cases "parseFrame (take ?total ?rb)")
      case None
      have l: "onSerialData_loop s = onSerialData_loop ?s1"
        using True None by (simp add: loop_complete_frame)
      have "onSerialData_loop ?sd = onSerialData_loop (?s1\<lparr>readBuffer := readBuffer ?s1 @ d\<rparr>)"
        by (subst loop_complete_frame [OF c1 c2]) (simp only: tk dr None option.case)
      also have "\<dots> = onSerialData_loop ((onSerialData_loop ?s1)\<lparr>readBuffer := readBuffer (onSerialData_loop ?s1) @ d\<rparr>)"
        using True None by (intro "1.IH"(1)) simp_all
      finally show ?thesis by (simp only: l)
    next
      case (Some parsed)
      let ?s2 = "handleParsed ?s1 parsed"
      have l: "onSerialData_loop s = onSerialData_loop ?s2"
        using True Some by (simp add: loop_complete_frame)
      have h: "handleParsed (?s1\<lparr>readBuffer := readBuffer ?s1 @ d\<rparr>) parsed = ?s2\<lparr>readBuffer := readBuffer ?s2 @ d\<rparr>"
        by (simp add: handleParsed_readBuffer_update)
      have "onSerialData_loop ?sd = onSerialData_loop (?s2\<lparr>readBuffer := readBuffer ?s2 @ d\<rparr>)"
        by (subst loop_complete_frame [OF c1 c2]) (simp only: tk dr Some option.case h)
      also have "\<dots> = onSerialData_loop ((onSerialData_loop ?s2)\<lparr>readBuffer := readBuffer (onSerialData_loop ?s2) @ d\<rparr>)"
        using True Some by (intro "1.IH"(2)) simp_all
      finally show ?thesis by (simp only: l)
    qed
  qed
qed

lemma onSerialData_append: "onSerialData (onSerialData s a) b = onSerialData s (a @ b)"
proof -
  let ?s0 = "s\<lparr>readBuffer := readBuffer s @ a\<rparr>"
  have "onSerialData s (a @ b) = onSerialData_loop (?s0\<lparr>readBuffer := readBuffer ?s0 @ b\<rparr>)"
    by (simp add: onSerialData_def)
  also have "\<dots> = onSerialData (onSerialData s a) b"
    by (subst loop_append) (simp add: onSerialData_def)
  finally show ?thesis by simp
qed

text \<open>
  C9. Feeding the bytes of a built frame in two chunks, split at any point \<open>k\<close>, leaves
  the module in the same state (buffer, queue, timers, status store, settled promises,
  scheduled callbacks) as feeding them in one delivery, from every state.
\<close>

theorem C9_two_chunks:
  "onSerialData (onSerialData s (take k (buildFrame cmd payloadBytes))) (drop k (buildFrame cmd payloadBytes))
     = onSerialData s (buildFrame cmd payloadBytes)"
  by (simp add: onSerialData_append)

text \<open>
  C10. \<open>parseFrame\<close> does not look at the header byte. With any first byte \<open>h\<close> and the
  checksum taken over the bytes as they are, the frame is accepted; the buffer
  00 02 4A B4 is an instance whose first byte is not 0xAA. \<open>onSerialData\<close> does not
  check the header either: the confirm frame 00 04 4B 00 05 AC sets the learned
  channels to 1 and 3.
\<close>

theorem C10_header_not_checked:
  "parseFrame [h, 0x02, 0x4A, of_nat (checksum [h, 0x02, 0x4A])] = Some (Some 0x4A, [])
   \<and> (0x00 :: byte) \<noteq> HEADER
   \<and> parseFrame [0x00, 0x02, 0x4A, 0xB4] = Some (Some 0x4A, [])
   \<and> learnedChannels (onSerialData init [0x00, 0x04, 0x4B, 0x00, 0x05, 0xAC]) = [1, 3]"
proof -
  have "parseFrame [h, 0x02, 0x4A, of_nat (checksum [h, 0x02, 0x4A])] = Some (Some 0x4A, [])"
    by (simp add: parseFrame_def Let_def unat_checksum_byte)
  moreover have "(0x00 :: byte) \<noteq> HEADER"
    by (simp add: HEADER_def)
  moreover have "parseFrame [0x00, 0x02, 0x4A, 0xB4] = Some (Some 0x4A, [])"
    by (simp add: parseFrame_def Let_def checksum_def)
  moreover have "learnedChannels (onSerialData init [0x00, 0x04, 0x4B, 0x00, 0x05, 0xAC]) = [1, 3]"
    by code_simp
  ultimately show ?thesis by simp
qed

text \<open>
  C2. An easy_check is in flight: enqueued, written, the write resolved and the
  response timer armed (handle 1). The ack frame AA 05 4D 00 01 01 02 for channel 1
  then arrives. It updates the status of channel 1 and leaves the head in the queue,
  unsettled, but it also clears the response timer: afterwards no timer, no write and
  no \<^verbatim>\<open>processNext\<close> is pending, so without a later confirm frame or a \<^verbatim>\<open>stop()\<close> the
  request never settles and \<open>processing\<close> stays \<open>True\<close>.
\<close>

theorem C2_mismatched_ack_clears_timer:
  "run init [EasyCheck, Tick, WriteDone] =
     Some \<lparr>queue = [\<lparr>rid = 0, type = easy_check, channel = None, payload = None\<rparr>],
       readBuffer = [], responseTimer = Some 1, processing = True,
       learnedChannels = [], channelStatus = [],
       timers = [(1, \<lparr>rid = 0, type = easy_check, channel = None, payload = None\<rparr>)],
       ticks = 0, writes = [],
       written = [(\<lparr>rid = 0, type = easy_check, channel = None, payload = None\<rparr>,
                   [0xAA, 0x02, 0x4A, 0x0A])],
       settled = [], fresh = 2\<rparr>
   \<and> run init [EasyCheck, Tick, WriteDone, SerialData [0xAA, 0x05, 0x4D, 0x00, 0x01, 0x01, 0x02]] =
     Some \<lparr>queue = [\<lparr>rid = 0, type = easy_check, channel = None, payload = None\<rparr>],
       readBuffer = [], responseTimer = None, processing = True,
       learnedChannels = [], channelStatus = [(1, Some 0x01)],
       timers = [],
       ticks = 0, writes = [],
       written = [(\<lparr>rid = 0, type = easy_check, channel = None, payload = None\<rparr>,
                   [0xAA, 0x02, 0x4A, 0x0A])],
       settled = [], fresh = 2\<rparr>
   \<and> run init [EasyCheck, Tick, WriteDone,
         SerialData [0xAA, 0x05, 0x4D, 0x00, 0x01, 0x01, 0x02], TimerFired] = None
   \<and> run init [EasyCheck, Tick, WriteDone,
         SerialData [0xAA, 0x05, 0x4D, 0x00, 0x01, 0x01, 0x02], Tick] = None
   \<and> run init [EasyCheck, Tick, WriteDone,
         SerialData [0xAA, 0x05, 0x4D, 0x00, 0x01, 0x01, 0x02], WriteDone] = None
   \<and> run init [EasyCheck, Tick, WriteDone,
         SerialData [0xAA, 0x05, 0x4D, 0x00, 0x01, 0x01, 0x02], WriteFailed] = None"
  by code_simp

text \<open>
  C4. Three easy_info requests are enqueued as items 0, 1, 2. An ack arrives while the
  write of item 0 is still pending and resolves it; item 1 is written; the write of
  item 0 then fails, which shifts item 1 off the queue without settling it; item 2 is
  written and resolved by the next ack; at last the write of item 1 fails and rejects
  it. The callers see the settlements in the order 0, 2, 1.
\<close>

theorem C4_settlement_out_of_order:
  "map_option (map rid \<circ> queue) (run init [EasyInfo 1, EasyInfo 2, EasyInfo 3]) = Some [0, 1, 2]
   \<and> map_option settled
        (run init [EasyInfo 1, EasyInfo 2, EasyInfo 3, Tick,
                   SerialData [0xAA, 0x05, 0x4D, 0x00, 0x01, 0x01, 0x02], Tick, WriteFailed, Tick,
                   SerialData [0xAA, 0x05, 0x4D, 0x00, 0x04, 0x01, 0xFF], WriteFailed])
       = Some [(0, Resolved None), (2, Resolved None), (1, Rejected WriteError)]"
  by code_simp

text \<open>
  C5. A request for channel 0 is not rejected before it is enqueued: after
  \<^verbatim>\<open>easyInfo(0)\<close> the item is in the queue, nothing is settled and a \<^verbatim>\<open>processNext\<close> is
  scheduled. Behind a request in flight it stays queued, unsettled.
\<close>

theorem C5_invalid_channel_is_enqueued:
  "channelToBytes 0 = Inl RangeError
   \<and> map_option (\<lambda>s. (queue s, settled s, ticks s)) (run init [EasyInfo 0])
       = Some ([\<lparr>rid = 0, type = easy_info, channel = Some 0, payload = None\<rparr>], [], 1)
   \<and> map_option (\<lambda>s. (map rid (queue s), settled s))
         (run init [EasyCheck, Tick, WriteDone, EasyInfo 0]) = Some ([0, 2], [])"
  by code_simp

subsection \<open>What is written to the transport\<close>

lemma clearResponseTimer_fields [simp]:
  "written (clearResponseTimer s) = written s"
  "queue (clearResponseTimer s) = queue s"
  "processing (clearResponseTimer s) = processing s"
  "writes (clearResponseTimer s) = writes s"
  "fresh (clearResponseTimer s) = fresh s"
  by (simp_all add: clearResponseTimer_def split: option.splits)


lemma reject_all_fields [simp]:
  "written (reject_all s its) = written s"
  "queue (reject_all s its) = queue s"
  "processing (reject_all s its) = processing s"
  "writes (reject_all s its) = writes s"
  "timers (reject_all s its) = timers s"
  "fresh (reject_all s its) = fresh s"
  "ticks (reject_all s its) = ticks s"
  by (induction its arbitrary: s) (simp_all add: settle_def)

lemma written_clearResponseTimer [simp]: "written (clearResponseTimer s) = written s"
  by (simp add: clearResponseTimer_def split: option.splits)

lemma written_settle [simp]: "written (settle s r out) = written s"
  by (simp add: settle_def)

lemma written_handleParsed [simp]: "written (handleParsed s parsed) = written s"
  by (simp add: handleParsed_def Let_def schedule_processNext_def setLearnedChannels_def
      setChannelStatus_def split: list.splits)

lemma written_loop [simp]: "written (onSerialData_loop s) = written s"
proof (induction s rule: onSerialData_loop.induct)
  case (1 s)
  show ?case
  proof (cases "2 \<le> length (readBuffer s) \<and> \<not> length (readBuffer s) < 2 + unat (readBuffer s ! 1)")
    case False
    then show ?thesis by (simp add: loop_incomplete)
  next
    case True
    then show ?thesis
      using "1.IH" by (subst loop_complete_frame) (auto split: option.splits)
  qed
qed

lemma written_onSerialData [simp]: "written (onSerialData s d) = written s"
  by (simp add: onSerialData_def)

lemma written_enqueue [simp]: "written (enqueue s t c p) = written s"
  by (simp add: enqueue_def Let_def schedule_processNext_def)

lemma written_write_resolved [simp]: "written (write_resolved s it) = written s"
  by (simp add: write_resolved_def)

lemma written_write_rejected [simp]: "written (write_rejected s it) = written s"
  by (simp add: write_rejected_def schedule_processNext_def)

lemma written_stop [simp]: "written (stop s) = written s"
  by (simp add: stop_def Let_def)

lemma written_response_timeout [simp]: "written (response_timeout s it) = written s"
  by (simp add: response_timeout_def Let_def schedule_processNext_def split: list.splits)

text \<open>Every buffer handed to the transport was built from the item it is logged with.\<close>

definition built :: "item \<times> byte list \<Rightarrow> bool" where
  "built w = (build_request (fst w) = Inr (snd w))"

lemma built_processNext:
  "list_all built (written s) \<Longrightarrow> list_all built (written (processNext s))"
  by (auto simp: processNext_def Let_def built_def schedule_processNext_def split: sum.splits)

lemma built_step:
  "step s e = Some s' \<Longrightarrow> list_all built (written s) \<Longrightarrow> list_all built (written s')"
proof (cases e)
  case Tick
  assume "step s e = Some s'" "list_all built (written s)"
  then show ?thesis using Tick built_processNext [of "s\<lparr>ticks := ticks s - 1\<rparr>"]
    by (auto split: if_splits)
qed (auto simp: easyCheck_def easyInfo_def easySend_def split: list.splits)

lemma built_run:
  "run s evs = Some s' \<Longrightarrow> list_all built (written s) \<Longrightarrow> list_all built (written s')"
proof (induction evs arbitrary: s)
  case Nil
  then show ?case by simp
next
  case (Cons e evs)
  then show ?case by (auto split: option.splits dest: built_step)
qed

lemma build_request_invalid_channel:
  assumes "c < 1 \<or> c > 15" "type it \<noteq> easy_check" "channel it = Some c"
  shows "build_request it = Inl RangeError \<or> build_request it = Inl InvalidQueueItem"
  using assms
  by (auto simp: build_request_def buildEasyInfo_def buildEasySend_def channelToBytes_def)

text \<open>
  C5, as the code has it. For a channel \<open>c\<close> outside 1..15, \<open>channelToBytes\<close> raises the
  \<^verbatim>\<open>RangeError\<close>; \<^verbatim>\<open>easyInfo\<close> and \<^verbatim>\<open>easySend\<close> still put the request into the queue,
  unsettled; when \<^verbatim>\<open>processNext\<close> finds it at the head it shifts it, rejects it with the
  \<^verbatim>\<open>RangeError\<close>, schedules the next run and writes nothing; and in no run of the module
  is a buffer ever written for an easy_info or easy_send item of that channel.
\<close>

theorem C5_invalid_channel_rejected_at_dispatch:
  assumes c: "c < 1 \<or> c > 15"
  shows "channelToBytes c = Inl RangeError
    \<and> queue (easyInfo s c)
        = queue s @ [\<lparr>rid = fresh s, type = easy_info, channel = Some c, payload = None\<rparr>]
    \<and> settled (easyInfo s c) = settled s
    \<and> queue (easySend s c p)
        = queue s @ [\<lparr>rid = fresh s, type = easy_send, channel = Some c, payload = Some p\<rparr>]
    \<and> settled (easySend s c p) = settled s
    \<and> (\<not> processing s0 \<and> queue s0 = it # rest
         \<and> (it = \<lparr>rid = r, type = easy_info, channel = Some c, payload = None\<rparr>
              \<or> it = \<lparr>rid = r, type = easy_send, channel = Some c, payload = Some p\<rparr>)
        \<longrightarrow> processNext s0 =
              schedule_processNext
                ((settle (s0\<lparr>processing := True, queue := rest\<rparr>) r (Rejected RangeError))
                   \<lparr>processing := False\<rparr>)
            \<and> written (processNext s0) = written s0)
    \<and> (run init evs = Some s' \<and> (it', buf) \<in> set (written s') \<and> type it' \<noteq> easy_check
        \<longrightarrow> channel it' \<noteq> Some c)"
proof -
  have 1: "channelToBytes c = Inl RangeError" using c by (auto simp: channelToBytes_def)
  have 2: "queue (easyInfo s c)
        = queue s @ [\<lparr>rid = fresh s, type = easy_info, channel = Some c, payload = None\<rparr>]"
    "settled (easyInfo s c) = settled s"
    "queue (easySend s c p)
        = queue s @ [\<lparr>rid = fresh s, type = easy_send, channel = Some c, payload = Some p\<rparr>]"
    "settled (easySend s c p) = settled s"
    by (simp_all add: easyInfo_def easySend_def enqueue_def Let_def schedule_processNext_def)
  have 3: "processNext s0 =
              schedule_processNext
                ((settle (s0\<lparr>processing := True, queue := rest\<rparr>) r (Rejected RangeError))
                   \<lparr>processing := False\<rparr>)
            \<and> written (processNext s0) = written s0"
    if "\<not> processing s0" "queue s0 = it # rest"
       "it = \<lparr>rid = r, type = easy_info, channel = Some c, payload = None\<rparr>
              \<or> it = \<lparr>rid = r, type = easy_send, channel = Some c, payload = Some p\<rparr>"
  proof -
    have b: "build_request it = Inl RangeError"
      using that(3) 1 by (auto simp: build_request_def buildEasyInfo_def buildEasySend_def)
    have r: "rid it = r" using that(3) by auto
    have e: "processNext s0 =
              schedule_processNext
                ((settle (s0\<lparr>processing := True, queue := rest\<rparr>) r (Rejected RangeError))
                   \<lparr>processing := False\<rparr>)"
      using that(1,2) b r by (simp add: processNext_def Let_def)
    show ?thesis unfolding e by (simp add: e schedule_processNext_def)
  qed
  have 4: "channel it' \<noteq> Some c"
    if "run init evs = Some s'" "(it', buf) \<in> set (written s')" "type it' \<noteq> easy_check"
  proof
    assume ch: "channel it' = Some c"
    have "list_all built (written s')"
      using that(1) by (rule built_run) (simp add: init_def)
    then have "build_request it' = Inr buf"
      using that(2) by (auto simp: list_all_iff built_def)
    then show False
      using build_request_invalid_channel [OF c that(3) ch] by simp
  qed
  show ?thesis using 1 2 3 4 by blast
qed

theorem C5_invalid_channel_rejected_at_dispatch_witness:
  "((0::int) < 1 \<or> (0::int) > 15)
   \<and> channelToBytes 0 = Inl RangeError
   \<and> \<not> processing (easyInfo init 0)
   \<and> queue (easyInfo init 0) = [\<lparr>rid = 0, type = easy_info, channel = Some 0, payload = None\<rparr>]
   \<and> processNext (easyInfo init 0)
       = \<lparr>queue = [], readBuffer = [], responseTimer = None, processing = False,
           learnedChannels = [], channelStatus = [], timers = [], ticks = 2,
           writes = [], written = [], settled = [(0, Rejected RangeError)], fresh = 1\<rparr>
   \<and> map_option (map fst \<circ> written) (run init [EasyInfo 1, Tick])
       = Some [\<lparr>rid = 0, type = easy_info, channel = Some 1, payload = None\<rparr>]"
proof -
  define it where "it = \<lparr>rid = 0, type = easy_info, channel = Some (0::int), payload = None\<rparr>"
  define it' where "it' = \<lparr>rid = 0, type = easy_info, channel = Some (1::int), payload = None\<rparr>"
  define S where "S = the (run init [EasyInfo 1, Tick])"
  have c: "(0::int) < 1 \<or> (0::int) > 15" by simp
  have h: "\<not> processing (easyInfo init 0)" "queue (easyInfo init 0) = it # []"
    unfolding it_def by code_simp+
  have r: "run init [EasyInfo 1, Tick] = Some S" "(it', [0xAA, 0x04, 0x4E, 0x00, 0x01, 0x03]) \<in> set (written S)"
    "type it' \<noteq> easy_check"
    unfolding S_def it'_def by code_simp+
  note t = C5_invalid_channel_rejected_at_dispatch [OF c, of init 0 "easyInfo init 0" it "[]" 0 "[EasyInfo 1, Tick]" S it'
      "[0xAA, 0x04, 0x4E, 0x00, 0x01, 0x03]"]
  have "channelToBytes 0 = Inl RangeError" using t by blast
  moreover have "processNext (easyInfo init 0) =
              schedule_processNext
                ((settle ((easyInfo init 0)\<lparr>processing := True, queue := []\<rparr>) 0 (Rejected RangeError))
                   \<lparr>processing := False\<rparr>)"
    using t h unfolding it_def by blast
  moreover have "schedule_processNext
                ((settle ((easyInfo init 0)\<lparr>processing := True, queue := []\<rparr>) 0 (Rejected RangeError))
                   \<lparr>processing := False\<rparr>) = \<lparr>queue = [], readBuffer = [], responseTimer = None, processing = False,
           learnedChannels = [], channelStatus = [], timers = [], ticks = 2,
           writes = [], written = [], settled = [(0, Rejected RangeError)], fresh = 1\<rparr>"
    by code_simp
  moreover have "map_option (map fst \<circ> written) (run init [EasyInfo 1, Tick])
       = Some [\<lparr>rid = 0, type = easy_info, channel = Some 1, payload = None\<rparr>]"
    by code_simp
  ultimately show ?thesis using c h unfolding it_def by simp
qed

subsection \<open>One write at a time\<close>














subsection \<open>The ways a step can go\<close>

text \<open>
  The four places that take a request off the queue (a matching frame in
  \<^verbatim>\<open>onSerialData\<close>, the error branch of \<^verbatim>\<open>processNext\<close>, the failed write, the timeout) all
  do the same: shift, settle, clear \<open>processing\<close>, schedule \<^verbatim>\<open>processNext\<close>.
  \<open>store_only\<close> relates two states that differ in the status store at most.
\<close>

definition complete :: "stick \<Rightarrow> item list \<Rightarrow> nat \<Rightarrow> outcome \<Rightarrow> stick" where
  "complete s rest r out =
     schedule_processNext ((settle (s\<lparr>queue := rest\<rparr>) r out)\<lparr>processing := False\<rparr>)"












subsection \<open>The first request in flight\<close>

text \<open>
  \<open>first_done\<close>: the request of the first write has been settled by a response, the
  timeout or a write failure. Until then (\<open>first_phase\<close>) either nothing has been written
  and nothing is pending, or exactly one buffer has been written, for the head of the
  queue, and every pending write or timer belongs to that head. \<open>fresh_ok\<close>: identities
  are unique, so the head of the queue has not been settled yet.
\<close>

definition first_done :: "stick \<Rightarrow> bool" where
  "first_done s =
     (written s \<noteq> [] \<and>
      (\<exists>out. (rid (fst (hd (written s))), out) \<in> set (settled s) \<and> responded out))"


definition fresh_ok :: "stick \<Rightarrow> bool" where
  "fresh_ok s =
     (distinct (map rid (queue s)) \<and> (\<forall>it\<in>set (queue s). rid it < fresh s)
      \<and> (\<forall>x\<in>set (settled s). fst x < fresh s \<and> fst x \<notin> rid ` set (queue s)))"

definition first_phase :: "stick \<Rightarrow> bool" where
  "first_phase s =
     ((written s = [] \<longrightarrow> \<not> processing s \<and> writes s = [] \<and> timers s = [])
      \<and> (written s \<noteq> [] \<longrightarrow>
            tl (written s) = [] \<and> processing s
            \<and> take 1 (queue s) = [fst (hd (written s))]
            \<and> (\<forall>it\<in>set (writes s). it = fst (hd (written s)))
            \<and> (\<forall>x\<in>set (timers s). snd x = fst (hd (written s)))))"

definition first_write_inv :: "stick \<Rightarrow> bool" where
  "first_write_inv s = (first_done s \<or> (fresh_ok s \<and> first_phase s))"




lemma settled_clearResponseTimer [simp]: "settled (clearResponseTimer s) = settled s"
  by (simp add: clearResponseTimer_def split: option.splits)

lemma complete_fields [simp]:
  "written (complete s rest r out) = written s"
  "queue (complete s rest r out) = rest"
  "processing (complete s rest r out) = False"
  "writes (complete s rest r out) = writes s"
  "timers (complete s rest r out) = timers s"
  "fresh (complete s rest r out) = fresh s"
  by (simp_all add: complete_def settle_def schedule_processNext_def)













lemma stop_fields [simp]:
  "queue (stop s) = []"
  "processing (stop s) = False"
  "writes (stop s) = writes s"
  "fresh (stop s) = fresh s"
  "timers (stop s) = timers (clearResponseTimer s)"
  by (simp_all add: stop_def Let_def)




lemma inv_readBuffer [simp]: "first_write_inv (s\<lparr>readBuffer := b\<rparr>) = first_write_inv s"
  by (simp add: first_write_inv_def first_done_def fresh_ok_def first_phase_def)

lemma inv_ticks [simp]: "first_write_inv (s\<lparr>ticks := n\<rparr>) = first_write_inv s"
  by (simp add: first_write_inv_def first_done_def fresh_ok_def first_phase_def)

lemma inv_responseTimer [simp]: "first_write_inv (s\<lparr>responseTimer := t\<rparr>) = first_write_inv s"
  by (simp add: first_write_inv_def first_done_def fresh_ok_def first_phase_def)















end
